theory Spec2Isabelle
  imports Main
begin

section \<open>Text\<close>

text \<open>
  A Python \<open>str\<close> is a sequence of Unicode code points; some column names of the
  source and the values it normalises lie outside ASCII, so text is a list of code
  points. \<open>cps\<close> reads an
  ASCII literal as such a list.
\<close>

type_synonym ustr = "nat list"

definition cps :: "string \<Rightarrow> ustr" where
  "cps s = map of_char s"

text \<open>
  \<open>str.strip()\<close> without arguments removes leading and trailing white space, which
  for a \<open>str\<close> is the set of code points for which \<open>str.isspace\<close> holds.
\<close>

definition py_isspace :: "nat \<Rightarrow> bool" where
  "py_isspace c \<longleftrightarrow>
     (9 \<le> c \<and> c \<le> 13) \<or> (28 \<le> c \<and> c \<le> 32) \<or> c = 133 \<or> c = 160 \<or> c = 5760 \<or>
     (8192 \<le> c \<and> c \<le> 8202) \<or> c = 8232 \<or> c = 8233 \<or> c = 8239 \<or> c = 8287 \<or>
     c = 12288"

definition py_strip :: "ustr \<Rightarrow> ustr" where
  "py_strip s = rev (dropWhile py_isspace (rev (dropWhile py_isspace s)))"

text \<open>
  \<open>unidecode(text)\<close> transliterates code point by code point: a code point below 128
  stands for itself, every other one is replaced by the entry of the library's table
  (an ASCII string, possibly empty). The table belongs to the \<open>unidecode\<close> package,
  not to this repository, so it is a parameter \<open>tbl\<close> of the model.
\<close>

definition unidecode :: "(nat \<Rightarrow> ustr) \<Rightarrow> ustr \<Rightarrow> ustr" where
  "unidecode tbl s = concat (map (\<lambda>c. if c < 128 then [c] else tbl c) s)"

definition ascii_table :: "(nat \<Rightarrow> ustr) \<Rightarrow> bool" where
  "ascii_table tbl \<longleftrightarrow> (\<forall>c. list_all (\<lambda>x. x < 128) (tbl c))"

text \<open>
  \<open>str.upper()\<close> is only ever applied to the result of \<open>unidecode\<close>, which is
  ASCII; on ASCII it maps \<open>a\<close>..\<open>z\<close> to \<open>A\<close>..\<open>Z\<close> and leaves the rest.
\<close>

definition upper_cp :: "nat \<Rightarrow> nat" where
  "upper_cp c = (if 97 \<le> c \<and> c \<le> 122 then c - 32 else c)"

definition py_upper :: "ustr \<Rightarrow> ustr" where
  "py_upper s = map upper_cp s"

section \<open>Cells and data frames\<close>

text \<open>
  A cell of a \<open>DataFrame\<close> holds a \<open>str\<close>, an integer (the year stamp, a coerced
  quantity) or is missing (\<open>NaN\<close>/\<open>None\<close>).
\<close>

datatype cell = Str ustr | Num int | NaN

fun is_Str :: "cell \<Rightarrow> bool" where
  "is_Str (Str s) = True"
| "is_Str c = False"

text \<open>
  \<open>normalize_text\<close>, the local function of \<open>WebScraper.clean_data\<close> (repeated
  verbatim in every \<open>transform_dados\<close>).
\<close>

fun normalize_text :: "(nat \<Rightarrow> ustr) \<Rightarrow> cell \<Rightarrow> cell" where
  "normalize_text tbl (Str t) =
     (if py_strip t = cps ''-'' \<or> py_strip t = cps ''*'' then Str (cps ''0'')
      else Str (py_upper (unidecode tbl t)))"
| "normalize_text tbl c = c"

record dataframe =
  columns :: "ustr list"
  rows :: "cell list list"

text \<open>
  A frame as pandas builds it: one cell per column in every row. Column labels are
  taken to be distinct; what pandas does with a repeated label is not modelled.
\<close>

definition wf_frame :: "dataframe \<Rightarrow> bool" where
  "wf_frame df \<longleftrightarrow>
     distinct (columns df) \<and> list_all (\<lambda>r. length r = length (columns df)) (rows df)"

text \<open>\<open>pd.DataFrame()\<close>, the initial value of \<open>self.data\<close>.\<close>

definition empty_frame :: dataframe where
  "empty_frame = \<lparr>columns = [], rows = []\<rparr>"

text \<open>The value a row holds under a column label; missing when the row has none.\<close>

definition cell_at :: "ustr list \<Rightarrow> cell list \<Rightarrow> ustr \<Rightarrow> cell" where
  "cell_at cols r c = (case map_of (zip cols r) c of Some v \<Rightarrow> v | None \<Rightarrow> NaN)"

text \<open>\<open>df[c]\<close> read as a series, for a label known to be present.\<close>

definition column :: "dataframe \<Rightarrow> ustr \<Rightarrow> cell list" where
  "column df c = map (\<lambda>r. cell_at (columns df) r c) (rows df)"

text \<open>
  \<open>df[c] = series\<close>: an existing column is overwritten in place, a new label is
  appended as the last column. The series comes from the same frame, so it is aligned
  by position.
\<close>

definition set_column :: "ustr \<Rightarrow> cell list \<Rightarrow> dataframe \<Rightarrow> dataframe" where
  "set_column c vals df =
     (if c \<in> set (columns df)
      then df\<lparr>rows := map2 (\<lambda>r v. map (\<lambda>(k, x). if k = c then v else x) (zip (columns df) r))
                              (rows df) vals\<rparr>
      else df\<lparr>columns := columns df @ [c],
               rows := map2 (\<lambda>r v. r @ [v]) (rows df) vals\<rparr>)"

text \<open>
  \<open>df.select_dtypes(include='object')\<close>, iterated: the labels of the columns of
  dtype \<open>object\<close>. A column that holds a \<open>str\<close> has that dtype; on a column
  that holds none the mapped function changes nothing, whatever its dtype.
\<close>

definition select_dtypes_object :: "dataframe \<Rightarrow> ustr list" where
  "select_dtypes_object df = filter (\<lambda>c. list_ex is_Str (column df c)) (columns df)"

text \<open>
  \<open>WebScraper.clean_data\<close>: for every object column,
  \<open>self.data[column] = self.data[column].map(normalize_text)\<close>.
\<close>

definition clean_data :: "(nat \<Rightarrow> ustr) \<Rightarrow> dataframe \<Rightarrow> dataframe" where
  "clean_data tbl df =
     foldl (\<lambda>d c. set_column c (map (normalize_text tbl) (column d c)) d) df
       (select_dtypes_object df)"

section \<open>Errors\<close>

text \<open>
  The exceptions the modelled code can raise: \<open>cells[0]\<close> on a row without cells,
  a missing dictionary key or column label, the shape check of the \<open>DataFrame\<close>
  constructor, the abstract methods of \<open>WebScraper\<close>, a method the base class
  lacks, and a failed request (\<open>requests.get\<close>, \<open>raise_for_status\<close>).
\<close>

datatype error =
  IndexError | KeyError ustr | ValueError | NotImplementedError | AttributeError | TransportError

definition bind_err :: "error + 'a \<Rightarrow> ('a \<Rightarrow> error + 'b) \<Rightarrow> error + 'b" where
  "bind_err m f = (case m of Inl e \<Rightarrow> Inl e | Inr x \<Rightarrow> f x)"

section \<open>Frame operations used by the transformers\<close>




text \<open>\<open>df.loc[mask]\<close> for a mask computed row by row.\<close>

definition loc_rows :: "(cell list \<Rightarrow> bool) \<Rightarrow> dataframe \<Rightarrow> dataframe" where
  "loc_rows keep df = df\<lparr>rows := filter keep (rows df)\<rparr>"


section \<open>Numeric coercion\<close>












section \<open>The transformers (\<open>transform_dados\<close>)\<close>

definition col_Produto :: ustr where "col_Produto = cps ''Produto''"







section \<open>Table extraction (\<open>extract_table_data\<close>)\<close>

text \<open>
  The located table, as the extractor's BeautifulSoup queries see it:
  \<^item> \<open>th_texts\<close>: the text of every \<open>th\<close>, from \<open>table.find_all('th')\<close>;
  \<^item> \<open>trs\<close>: the rows of \<open>table.find_all('tr')\<close> in document order, each row
    being its \<open>row.find_all('td')\<close>;
  \<^item> \<open>tfoot\<close>: the rows of \<open>footer.find_all('tr')\<close> for the footer
    \<open>table.find('tfoot', class_='tb_total')\<close>, or \<open>None\<close> when the table has none.
  A data cell is its class list (\<open>cell.get('class', [])\<close>) and its text.
\<close>

record td =
  td_class :: "ustr list"
  td_text :: ustr

type_synonym tr = "td list"

record table =
  th_texts :: "ustr list"
  trs :: "tr list"
  tfoot :: "tr list option"

definition tb_item :: ustr where "tb_item = cps ''tb_item''"
definition tb_subitem :: ustr where "tb_subitem = cps ''tb_subitem''"
definition Total :: ustr where "Total = cps ''Total''"
definition col_Classification :: ustr where "col_Classification = cps ''Classification''"
definition col_Button :: ustr where "col_Button = cps ''Button''"
definition col_Year :: ustr where "col_Year = cps ''Year''"

text \<open>
  \<open>footer and row in footer.find_all('tr')\<close>: a found footer is truthy, and
  \<open>in\<close> compares the row with each footer row by equality. A row stands for its
  data cells here, so two rows with the same cells are equal.
\<close>

definition in_footer :: "tr list option \<Rightarrow> tr \<Rightarrow> bool" where
  "in_footer footer row = (case footer of None \<Rightarrow> False | Some frs \<Rightarrow> row \<in> set frs)"

text \<open>
  One pass of the loop body (lines 70 to 86) on a row. The carried state is the pair
  \<open>(current_classification, second_last_item)\<close>; the result is the new state and
  the \<open>row_data\<close> appended to \<open>rows\<close>. \<open>cells[0]\<close> is evaluated only when the
  footer test fails, and raises \<open>IndexError\<close> on a row without cells.
\<close>

definition extract_row ::
  "tr list option \<Rightarrow> ustr \<Rightarrow> ustr \<times> ustr \<Rightarrow> tr \<Rightarrow> error + ((ustr \<times> ustr) \<times> ustr list)" where
  "extract_row footer classification_button st cells =
     (let row_data = map (\<lambda>cell. py_strip (td_text cell)) cells;
          finish = (\<lambda>rd. if classification_button \<noteq> [] then rd @ [classification_button] else rd)
      in if in_footer footer cells then Inr (st, finish (row_data @ [Total]))
         else (case cells of
                 [] \<Rightarrow> Inl IndexError
               | c0 # _ \<Rightarrow>
                   if tb_item \<in> set (td_class c0)
                   then Inr ((py_strip (td_text c0), py_strip (td_text c0)),
                             finish (row_data @ [py_strip (td_text c0)]))
                   else if tb_subitem \<in> set (td_class c0)
                   then Inr (st, finish (row_data @ [snd st]))
                   else Inr (st, finish (row_data @ [[]]))))"

text \<open>The loop over \<open>table.find_all('tr')[1:]\<close>; \<open>acc\<close> is the list \<open>rows\<close> of the source.\<close>

fun extract_rows ::
  "tr list option \<Rightarrow> ustr \<Rightarrow> ustr \<times> ustr \<Rightarrow> ustr list list \<Rightarrow> tr list \<Rightarrow> error + ustr list list" where
  "extract_rows footer b st acc [] = Inr acc"
| "extract_rows footer b st acc (row # rest) =
     (case extract_row footer b st row of
        Inl e \<Rightarrow> Inl e
      | Inr (st', row_data) \<Rightarrow> extract_rows footer b st' (acc @ [row_data]) rest)"

text \<open>
  \<open>pd.DataFrame(rows, columns=headers)\<close> for a list of lists of text: no rows give
  an empty frame with the headers; otherwise the longest row decides the number of
  columns, which must be the number of headers (\<open>ValueError\<close>: "n columns passed,
  passed data had m columns"), and shorter rows are padded with missing values.
\<close>

definition DataFrame :: "ustr list list \<Rightarrow> ustr list \<Rightarrow> error + dataframe" where
  "DataFrame data headers =
     (if data = [] then Inr \<lparr>columns = headers, rows = []\<rparr>
      else let k = foldr max (map length data) 0 in
        if k \<noteq> length headers then Inl ValueError
        else Inr \<lparr>columns = headers,
                  rows = map (\<lambda>r. map Str r @ replicate (k - length r) NaN) data\<rparr>)"

definition table_headers :: "table \<Rightarrow> ustr \<Rightarrow> ustr list" where
  "table_headers t classification_button =
     map py_strip (th_texts t) @ [col_Classification] @
     (if classification_button \<noteq> [] then [col_Button] else [])"

text \<open>The rows the loop hands to the constructor for a table.\<close>

definition table_rows :: "table \<Rightarrow> ustr \<Rightarrow> error + ustr list list" where
  "table_rows t classification_button =
     extract_rows (tfoot t) classification_button ([], []) [] (tl (trs t))"

definition extract_table_data :: "table \<Rightarrow> ustr \<Rightarrow> error + dataframe" where
  "extract_table_data t classification_button =
     bind_err (table_rows t classification_button)
       (\<lambda>rs. DataFrame rs (table_headers t classification_button))"



text \<open>
  The classification field of an extracted record: the value appended right after the
  texts of the row's cells.
\<close>

definition classification_of :: "tr \<Rightarrow> ustr list \<Rightarrow> ustr" where
  "classification_of row row_data = row_data ! length row"

section \<open>The scraping run (\<open>run_scraping\<close>)\<close>

text \<open>
  A parsed page, as \<open>find_data_table\<close> sees it: its \<open>table\<close> elements in document
  order, each with its class list. \<open>soup.find('table', class_='tb_base tb_dados')\<close>
  returns the first table whose class attribute is exactly these two classes in this
  order, or \<open>None\<close>.
\<close>

type_synonym soup = "(ustr list \<times> table) list"

definition find_data_table :: "soup \<Rightarrow> table option" where
  "find_data_table soup =
     (case filter (\<lambda>(cl, t). cl = [cps ''tb_base'', cps ''tb_dados'']) soup of
        [] \<Rightarrow> None
      | (cl, t) # _ \<Rightarrow> Some t)"

text \<open>A button is a dictionary; \<open>button[key]\<close> raises \<open>KeyError\<close> on a missing key.\<close>

type_synonym button = "ustr \<rightharpoonup> ustr"

definition dict_get :: "button \<Rightarrow> ustr \<Rightarrow> error + ustr" where
  "dict_get d k = (case d k of None \<Rightarrow> Inl (KeyError k) | Some v \<Rightarrow> Inr v)"

definition key_classification_button :: ustr where
  "key_classification_button = cps ''classification_button''"
definition key_value :: ustr where
  "key_value = cps ''value''"

text \<open>
  \<open>pd.concat([self.data, df], ignore_index=True)\<close>: the columns of the first frame,
  then the new ones of the second, and the rows of both, each row holding a missing
  value under a label its frame lacks.
\<close>

definition pd_concat :: "dataframe \<Rightarrow> dataframe \<Rightarrow> dataframe" where
  "pd_concat a b =
     (let cols = columns a @ filter (\<lambda>c. c \<notin> set (columns a)) (columns b) in
      \<lparr>columns = cols,
       rows = map (\<lambda>r. map (cell_at (columns a) r) cols) (rows a) @
              map (\<lambda>r. map (cell_at (columns b) r) cols) (rows b)\<rparr>)"

text \<open>
  The three statements of the branch \<open>if table:\<close> (lines 102 to 104 and 113 to 115):
  extract, stamp \<open>df['Year'] = year\<close>, append to \<open>self.data\<close>.
\<close>

definition stamp_year :: "int \<Rightarrow> dataframe \<Rightarrow> dataframe" where
  "stamp_year year df = set_column col_Year (replicate (length (rows df)) (Num year)) df"

definition add_table :: "int \<Rightarrow> ustr \<Rightarrow> table \<Rightarrow> dataframe \<Rightarrow> error + dataframe" where
  "add_table year classification_button t data =
     bind_err (extract_table_data t classification_button)
       (\<lambda>df. Inr (pd_concat data (stamp_year year df)))"

text \<open>
  The inner loop \<open>for button in button_iterable\<close>. \<open>page year button\<close> stands for
  \<open>parse_html(get_html_content(base_url, create_parameters(year, button)))\<close>: the
  request can fail, and \<open>create_parameters\<close> is for a subclass to supply. When no
  table is found the message printed reads \<open>button["value"]\<close>.
\<close>

fun scrape_buttons ::
  "(int \<Rightarrow> button option \<Rightarrow> error + soup) \<Rightarrow> int \<Rightarrow> button list \<Rightarrow> dataframe \<Rightarrow> error + dataframe" where
  "scrape_buttons page year [] data = Inr data"
| "scrape_buttons page year (button # rest) data =
     (case page year (Some button) of
        Inl e \<Rightarrow> Inl e
      | Inr soup \<Rightarrow>
          (case find_data_table soup of
             Some t \<Rightarrow>
               (case dict_get button key_classification_button of
                  Inl e \<Rightarrow> Inl e
                | Inr label \<Rightarrow>
                    (case add_table year label t data of
                       Inl e \<Rightarrow> Inl e
                     | Inr data' \<Rightarrow> scrape_buttons page year rest data'))
           | None \<Rightarrow>
               (case dict_get button key_value of
                  Inl e \<Rightarrow> Inl e
                | Inr v \<Rightarrow> scrape_buttons page year rest data)))"

text \<open>
  The outer loop \<open>for year in self.years\<close>. \<open>get_buttons\<close> is the result of the
  method of that name, called once per year: a list of buttons, or the
  \<open>NotImplementedError\<close> of \<open>WebScraper\<close> itself. An empty list is falsy and gives
  one fetch for the year, with no button and the default empty label.
\<close>

fun scrape_years ::
  "(int \<Rightarrow> button option \<Rightarrow> error + soup) \<Rightarrow> error + button list \<Rightarrow> int list \<Rightarrow> dataframe
     \<Rightarrow> error + dataframe" where
  "scrape_years page get_buttons [] data = Inr data"
| "scrape_years page get_buttons (year # rest) data =
     (case get_buttons of
        Inl e \<Rightarrow> Inl e
      | Inr button_iterable \<Rightarrow>
          if button_iterable \<noteq> [] then
            (case scrape_buttons page year button_iterable data of
               Inl e \<Rightarrow> Inl e
             | Inr data' \<Rightarrow> scrape_years page get_buttons rest data')
          else
            (case page year None of
               Inl e \<Rightarrow> Inl e
             | Inr soup \<Rightarrow>
                 (case find_data_table soup of
                    Some t \<Rightarrow>
                      (case add_table year [] t data of
                         Inl e \<Rightarrow> Inl e
                       | Inr data' \<Rightarrow> scrape_years page get_buttons rest data')
                  | None \<Rightarrow> scrape_years page get_buttons rest data)))"

text \<open>\<open>WebScraper.run_scraping\<close>: the loops from the empty frame, then \<open>clean_data\<close>.\<close>

definition run_scraping ::
  "(nat \<Rightarrow> ustr) \<Rightarrow> (int \<Rightarrow> button option \<Rightarrow> error + soup) \<Rightarrow> error + button list \<Rightarrow> int list
     \<Rightarrow> error + dataframe" where
  "run_scraping tbl page get_buttons years =
     bind_err (scrape_years page get_buttons years empty_frame) (\<lambda>data. Inr (clean_data tbl data))"

section \<open>Auxiliary definitions and sample data\<close>

text \<open>
  Five entries of the transliteration table of \<open>unidecode\<close>, for the examples:
  a with tilde, c with cedilla, e with acute and i with acute lose their diacritic,
  and the en dash (8211) becomes a hyphen-minus. The examples use no other entry.
\<close>

definition unidecode_excerpt :: "nat \<Rightarrow> ustr" where
  "unidecode_excerpt c =
     (if c = 227 then cps ''a'' else if c = 231 then cps ''c'' else if c = 233 then cps ''e''
      else if c = 237 then cps ''i'' else if c = 8211 then cps ''-'' else [])"

text \<open>A function applied to the cells of the columns whose label satisfies \<open>P\<close>.\<close>

definition map_cols :: "(ustr \<Rightarrow> bool) \<Rightarrow> (cell \<Rightarrow> cell) \<Rightarrow> dataframe \<Rightarrow> dataframe" where
  "map_cols P f df =
     df\<lparr>rows := map (\<lambda>r. map (\<lambda>(k, v). if P k then f v else v) (zip (columns df) r)) (rows df)\<rparr>"

definition sample_frame :: dataframe where
  "sample_frame =
     \<lparr>columns = [col_Produto, col_Year],
      rows = [[Str (cps ''caf'' @ [233]), Num 2022], [Str (cps '' - ''), Num 2022]]\<rparr>"

text \<open>
  Sample tables. \<open>sample_table\<close> is a production page: a header row, the category
  row \<open>VINHO DE MESA\<close>, its sub-item \<open>tinto\<close>, and a footer row, which here also
  carries the category hint on its first cell. \<open>orphan_table\<close> starts with a
  sub-item row; \<open>broken_table\<close> has a body row without cells.
\<close>

definition category_row :: tr where
  "category_row = [\<lparr>td_class = [tb_item], td_text = cps ''VINHO DE MESA''\<rparr>,
                   \<lparr>td_class = [], td_text = cps ''10.000''\<rparr>]"

definition subitem_row :: tr where
  "subitem_row = [\<lparr>td_class = [tb_subitem], td_text = cps '' tinto ''\<rparr>,
                  \<lparr>td_class = [], td_text = cps ''4.000''\<rparr>]"

definition footer_row :: tr where
  "footer_row = [\<lparr>td_class = [tb_item], td_text = cps ''Total''\<rparr>,
                 \<lparr>td_class = [], td_text = cps ''14.000''\<rparr>]"

definition sample_table :: table where
  "sample_table =
     \<lparr>th_texts = [cps ''Produto'', cps ''Quantidade (L.)''],
      trs = [[], category_row, subitem_row, footer_row],
      tfoot = Some [footer_row]\<rparr>"

definition orphan_table :: table where
  "orphan_table =
     \<lparr>th_texts = [cps ''Produto'', cps ''Quantidade (L.)''],
      trs = [[], subitem_row, category_row],
      tfoot = None\<rparr>"

definition broken_table :: table where
  "broken_table =
     \<lparr>th_texts = [cps ''Produto'', cps ''Quantidade (L.)''],
      trs = [[], category_row, []],
      tfoot = Some [footer_row]\<rparr>"






text \<open>
  The combinations of a run in the order of the two loops: years outside, buttons
  inside, and one combination without button per year when the button list is empty.
\<close>

definition fetches :: "int list \<Rightarrow> button list \<Rightarrow> (int \<times> button option) list" where
  "fetches years buttons =
     concat (map (\<lambda>y. if buttons \<noteq> [] then map (\<lambda>b. (y, Some b)) buttons else [(y, None)]) years)"

text \<open>
  What one combination does to the accumulated frame: the body of the inner loop for
  a button, and the \<open>else\<close> branch of the outer loop without one.
\<close>

definition fetch_step ::
  "(int \<Rightarrow> button option \<Rightarrow> error + soup) \<Rightarrow> dataframe \<Rightarrow> int \<times> button option \<Rightarrow> error + dataframe" where
  "fetch_step page data yb =
     (case page (fst yb) (snd yb) of
        Inl e \<Rightarrow> Inl e
      | Inr soup \<Rightarrow>
          (case find_data_table soup of
             Some t \<Rightarrow>
               (case snd yb of
                  None \<Rightarrow> add_table (fst yb) [] t data
                | Some button \<Rightarrow>
                    (case dict_get button key_classification_button of
                       Inl e \<Rightarrow> Inl e
                     | Inr label \<Rightarrow> add_table (fst yb) label t data))
           | None \<Rightarrow>
               (case snd yb of
                  None \<Rightarrow> Inr data
                | Some button \<Rightarrow>
                    (case dict_get button key_value of Inl e \<Rightarrow> Inl e | Inr v \<Rightarrow> Inr data))))"

fun fold_err :: "('s \<Rightarrow> 'a \<Rightarrow> error + 's) \<Rightarrow> 's \<Rightarrow> 'a list \<Rightarrow> error + 's" where
  "fold_err f s [] = Inr s"
| "fold_err f s (x # xs) = (case f s x of Inl e \<Rightarrow> Inl e | Inr s' \<Rightarrow> fold_err f s' xs)"

text \<open>The number of records a combination contributes: the rows after the header
  row of the table found on its page, none when the page has no data table.\<close>

definition records_found :: "(int \<Rightarrow> button option \<Rightarrow> error + soup) \<Rightarrow> int \<times> button option \<Rightarrow> nat" where
  "records_found page yb =
     (case page (fst yb) (snd yb) of
        Inl e \<Rightarrow> 0
      | Inr soup \<Rightarrow> (case find_data_table soup of None \<Rightarrow> 0 | Some t \<Rightarrow> length (tl (trs t))))"

text \<open>
  Sample pages: the page of 2020 holds \<open>sample_table\<close>, that of 2021
  \<open>orphan_table\<close>, each as the data table; the page of any other year holds one
  table of another class.
\<close>

definition data_class :: "ustr list" where
  "data_class = [cps ''tb_base'', cps ''tb_dados'']"

definition sample_page :: "int \<Rightarrow> button option \<Rightarrow> error + soup" where
  "sample_page year button =
     (if year = 2020 then Inr [([cps ''menu''], broken_table), (data_class, sample_table)]
      else if year = 2021 then Inr [(data_class, orphan_table)]
      else Inr [([cps ''tb_base''], sample_table)])"

definition sample_button :: button where
  "sample_button =
     [cps ''name'' \<mapsto> cps ''subopcao'', cps ''value'' \<mapsto> cps ''subopt_01'',
      cps ''classification_button'' \<mapsto> cps ''VINHOS DE MESA'']"

text \<open>Every row has one cell per column (labels may repeat).\<close>

definition rectangular :: "dataframe \<Rightarrow> bool" where
  "rectangular df \<longleftrightarrow> list_all (\<lambda>r. length r = length (columns df)) (rows df)"

section \<open>Properties of the text functions\<close>

lemma unidecode_ascii_id: "list_all (\<lambda>c. c < 128) s \<Longrightarrow> unidecode tbl s = s"
  by (induction s) (auto simp: unidecode_def)

lemma unidecode_is_ascii: "ascii_table tbl \<Longrightarrow> list_all (\<lambda>c. c < 128) (unidecode tbl s)"
  by (induction s) (auto simp: unidecode_def ascii_table_def)

lemma py_upper_ascii: "list_all (\<lambda>c. c < 128) s \<Longrightarrow> list_all (\<lambda>c. c < 128) (py_upper s)"
  by (induction s) (auto simp: py_upper_def upper_cp_def)

lemma py_upper_idem: "py_upper (py_upper s) = py_upper s"
  by (induction s) (auto simp: py_upper_def upper_cp_def)

lemma isspace_upper_cp: "py_isspace (upper_cp c) = py_isspace c"
  by (auto simp: py_isspace_def upper_cp_def)

lemma py_strip_upper: "py_strip (py_upper s) = py_upper (py_strip s)"
proof -
  have "py_isspace \<circ> upper_cp = py_isspace"
    by (rule ext) (simp add: isspace_upper_cp)
  then have dw: "dropWhile py_isspace (map upper_cp xs) = map upper_cp (dropWhile py_isspace xs)" for xs
    by (simp add: dropWhile_map)
  show ?thesis
    by (simp add: py_strip_def py_upper_def dw rev_map)
qed

lemma py_upper_eq_single:
  "\<not> (97 \<le> x \<and> x \<le> 122) \<Longrightarrow> \<not> (65 \<le> x \<and> x \<le> 90) \<Longrightarrow> py_upper s = [x] \<longleftrightarrow> s = [x]"
  by (cases s) (auto simp: py_upper_def upper_cp_def)

lemma py_upper_sentinel:
  "py_upper s = cps ''-'' \<longleftrightarrow> s = cps ''-''" "py_upper s = cps ''*'' \<longleftrightarrow> s = cps ''*''"
  by (simp_all add: cps_def py_upper_eq_single)

lemma normalize_zero: "normalize_text tbl (Str (cps ''0'')) = Str (cps ''0'')"
  by (simp add: cps_def py_strip_def py_isspace_def unidecode_def py_upper_def upper_cp_def)

lemma normalize_text_not_Str: "\<not> is_Str v \<Longrightarrow> normalize_text tbl v = v"
  by (cases v) auto

lemma normalize_text_idem_iff:
  assumes "ascii_table tbl"
  shows "normalize_text tbl (normalize_text tbl (Str s)) = normalize_text tbl (Str s) \<longleftrightarrow>
         (py_strip s = cps ''-'' \<or> py_strip s = cps ''*'' \<or>
          (py_strip (unidecode tbl s) \<noteq> cps ''-'' \<and> py_strip (unidecode tbl s) \<noteq> cps ''*''))"
proof (cases "py_strip s = cps ''-'' \<or> py_strip s = cps ''*''")
  case True
  then show ?thesis using normalize_zero by auto
next
  case False
  let ?u = "py_upper (unidecode tbl s)"
  have n1: "normalize_text tbl (Str s) = Str ?u" using False by simp
  have asc: "list_all (\<lambda>c. c < 128) ?u"
    using assms by (simp add: py_upper_ascii unidecode_is_ascii)
  have fx: "py_upper (unidecode tbl ?u) = ?u"
    using asc by (simp add: unidecode_ascii_id py_upper_idem)
  have st: "py_strip ?u = cps ''-'' \<longleftrightarrow> py_strip (unidecode tbl s) = cps ''-''"
           "py_strip ?u = cps ''*'' \<longleftrightarrow> py_strip (unidecode tbl s) = cps ''*''"
    by (simp_all add: py_strip_upper py_upper_sentinel)
  have ne: "?u \<noteq> cps ''0''" if "py_strip ?u = cps ''-'' \<or> py_strip ?u = cps ''*''"
    using that by (auto simp: cps_def py_strip_def py_isspace_def)
  show ?thesis
    using False n1 fx st ne by auto
qed

lemma ascii_table_excerpt: "ascii_table unidecode_excerpt"
  by (simp add: ascii_table_def unidecode_excerpt_def cps_def)

section \<open>Properties of frames and of \<open>clean_data\<close>\<close>

lemma map_of_zip_distinct:
  "distinct cols \<Longrightarrow> (k, v) \<in> set (zip cols r) \<Longrightarrow> map_of (zip cols r) k = Some v"
  by (metis distinct_take map_fst_zip_take map_of_is_SomeI)

lemma cell_at_zip:
  "distinct cols \<Longrightarrow> (k, v) \<in> set (zip cols r) \<Longrightarrow> cell_at cols r k = v"
  by (simp add: cell_at_def map_of_zip_distinct)

lemma zip_map_zip:
  "length r = length cols \<Longrightarrow>
   zip cols (map (\<lambda>(k, v). g k v) (zip cols r)) = map (\<lambda>(k, v). (k, g k v)) (zip cols r)"
  by (induction cols r rule: list_induct2') auto

lemma set_column_map:
  assumes "wf_frame df" "c \<in> set (columns df)"
  shows "set_column c (map f (column df c)) df = map_cols (\<lambda>k. k = c) f df"
proof -
  have "map2 (\<lambda>r v. map (\<lambda>(k, x). if k = c then v else x) (zip (columns df) r))
          rs (map f (map (\<lambda>r. cell_at (columns df) r c) rs))
        = map (\<lambda>r. map (\<lambda>(k, v). if k = c then f v else v) (zip (columns df) r)) rs" for rs
  proof (induction rs)
    case Nil show ?case by simp
  next
    case (Cons r rs)
    have "map (\<lambda>(k, x). if k = c then f (cell_at (columns df) r c) else x) (zip (columns df) r)
          = map (\<lambda>(k, v). if k = c then f v else v) (zip (columns df) r)"
      using assms(1) by (auto simp: wf_frame_def cell_at_zip)
    with Cons show ?case by simp
  qed
  then show ?thesis using assms(2) by (simp add: set_column_def column_def map_cols_def)
qed

lemma wf_map_cols: "wf_frame df \<Longrightarrow> wf_frame (map_cols P f df)"
  by (auto simp: wf_frame_def map_cols_def list_all_iff)

lemma columns_map_cols [simp]: "columns (map_cols P f df) = columns df"
  by (simp add: map_cols_def)

lemma map_cols_map_cols:
  assumes "wf_frame df" "\<And>k. \<not> (P k \<and> Q k)"
  shows "map_cols Q f (map_cols P f df) = map_cols (\<lambda>k. P k \<or> Q k) f df"
proof -
  have "map (\<lambda>(k, v). if Q k then f v else v)
          (zip (columns df) (map (\<lambda>(k, v). if P k then f v else v) (zip (columns df) r)))
        = map (\<lambda>(k, v). if P k \<or> Q k then f v else v) (zip (columns df) r)"
    if "length r = length (columns df)" for r
    using zip_map_zip [OF that, of "\<lambda>k v. if P k then f v else v"] assms(2)
    by (auto simp: case_prod_unfold)
  then show ?thesis using assms(1)
    by (simp add: map_cols_def wf_frame_def list_all_iff)
qed

lemma fold_set_column:
  assumes "wf_frame df" "set cs \<subseteq> set (columns df)" "distinct cs"
  shows "foldl (\<lambda>d c. set_column c (map f (column d c)) d) df cs
         = map_cols (\<lambda>k. k \<in> set cs) f df"
  using assms
proof (induction cs rule: rev_induct)
  case Nil
  have *: "map (\<lambda>(k, v). v) (zip (columns df) r) = r" if "length r = length (columns df)" for r
    using that by (simp add: case_prod_unfold)
  have "length r = length (columns df)" if "r \<in> set (rows df)" for r
    using Nil(1) that by (simp add: wf_frame_def list_all_iff)
  then have "map (\<lambda>r. map (\<lambda>(k, v). v) (zip (columns df) r)) (rows df) = rows df"
    by (intro map_idI *)
  then show ?case by (simp add: map_cols_def)
next
  case (snoc c cs)
  let ?d = "map_cols (\<lambda>k. k \<in> set cs) f df"
  have wf: "wf_frame ?d" using snoc.prems(1) by (rule wf_map_cols)
  have "foldl (\<lambda>d c. set_column c (map f (column d c)) d) df (cs @ [c])
        = set_column c (map f (column ?d c)) ?d"
    using snoc by simp
  also have "\<dots> = map_cols (\<lambda>k. k = c) f ?d"
    using wf snoc.prems(2) by (simp add: set_column_map)
  also have "\<dots> = map_cols (\<lambda>k. k \<in> set cs \<or> k = c) f df"
    using snoc.prems(1,3) by (intro map_cols_map_cols) auto
  also have "\<dots> = map_cols (\<lambda>k. k \<in> set (cs @ [c])) f df"
    by (simp add: disj_commute)
  finally show ?case .
qed

lemma clean_data_rows:
  assumes "wf_frame df"
  shows "clean_data tbl df = df\<lparr>rows := map (map (normalize_text tbl)) (rows df)\<rparr>"
proof -
  let ?f = "normalize_text tbl"
  let ?cs = "select_dtypes_object df"
  have d: "distinct (columns df)" and len: "\<And>r. r \<in> set (rows df) \<Longrightarrow> length r = length (columns df)"
    using assms by (auto simp: wf_frame_def list_all_iff)
  have "clean_data tbl df = map_cols (\<lambda>k. k \<in> set ?cs) ?f df"
    unfolding clean_data_def using assms d
    by (intro fold_set_column) (auto simp: select_dtypes_object_def)
  moreover have "map (\<lambda>(k, v). if k \<in> set ?cs then ?f v else v) (zip (columns df) r) = map ?f r"
    if r: "r \<in> set (rows df)" for r
  proof -
    have "(if k \<in> set ?cs then ?f v else v) = ?f v" if kv: "(k, v) \<in> set (zip (columns df) r)" for k v
    proof (cases "k \<in> set ?cs")
      case True then show ?thesis by simp
    next
      case False
      have "k \<in> set (columns df)" using kv by (rule set_zip_leftD)
      with False have "\<not> list_ex is_Str (column df k)"
        by (simp add: select_dtypes_object_def)
      moreover have "v \<in> set (column df k)"
        using r cell_at_zip [OF d kv] by (force simp: column_def)
      ultimately have "\<not> is_Str v" by (auto simp: list_ex_iff)
      then show ?thesis by (simp add: normalize_text_not_Str)
    qed
    then have "map (\<lambda>(k, v). if k \<in> set ?cs then ?f v else v) (zip (columns df) r)
               = map (\<lambda>(k, v). ?f v) (zip (columns df) r)"
      by (intro map_cong) auto
    also have "\<dots> = map ?f (map snd (zip (columns df) r))"
      by (simp add: case_prod_unfold)
    also have "\<dots> = map ?f r" using len [OF r] by simp
    finally show ?thesis .
  qed
  ultimately show ?thesis by (simp add: map_cols_def)
qed

lemma wf_sample_frame: "wf_frame sample_frame"
  by (simp add: wf_frame_def sample_frame_def col_Produto_def col_Year_def cps_def)

section \<open>The field normaliser\<close>

text \<open>
  C3. On a frame with distinct labels and one cell per column in every row, and for a
  transliteration table with ASCII entries, \<open>clean_data\<close> keeps the columns and
  replaces every cell by its \<open>normalize_text\<close>, whatever the column.
  On a text cell that is: \<open>"0"\<close> when the trimmed text is exactly \<open>"-"\<close> or
  \<open>"*"\<close>, and otherwise the untrimmed text transliterated and folded to upper case
  (so \<open>caf\<close> followed by e with acute gives \<open>CAFE\<close>, the table sending
  e with acute to \<open>e\<close>).
  A cell that is not text, a number or a missing value, is left as it is.
\<close>

theorem clean_data_normalizes_every_field:
  assumes "wf_frame df" "ascii_table tbl"
  shows "columns (clean_data tbl df) = columns df \<and>
         rows (clean_data tbl df) = map (map (normalize_text tbl)) (rows df) \<and>
         normalize_text tbl (Str t) =
           (if py_strip t = cps ''-'' \<or> py_strip t = cps ''*'' then Str (cps ''0'')
            else Str (py_upper (unidecode tbl t))) \<and>
         normalize_text tbl (Num n) = Num n \<and>
         normalize_text tbl NaN = NaN \<and>
         (tbl 233 = cps ''e'' \<longrightarrow>
            normalize_text tbl (Str (cps ''caf'' @ [233])) = Str (cps ''CAFE''))"
proof -
  have "tbl 233 = cps ''e'' \<Longrightarrow>
        normalize_text tbl (Str (cps ''caf'' @ [233])) = Str (cps ''CAFE'')"
    by (simp add: cps_def py_strip_def py_isspace_def unidecode_def py_upper_def upper_cp_def)
  then show ?thesis
    using assms(1) by (simp add: clean_data_rows)
qed

theorem clean_data_normalizes_every_field_witness:
  "wf_frame sample_frame \<and> ascii_table unidecode_excerpt \<and> unidecode_excerpt 233 = cps ''e'' \<and>
   rows (clean_data unidecode_excerpt sample_frame) =
     [[Str (cps ''CAFE''), Num 2022], [Str (cps ''0''), Num 2022]]"
proof -
  have e: "unidecode_excerpt 233 = cps ''e''"
    by (simp add: unidecode_excerpt_def)
  have "rows (clean_data unidecode_excerpt sample_frame) =
        map (map (normalize_text unidecode_excerpt)) (rows sample_frame)"
    using clean_data_normalizes_every_field [OF wf_sample_frame ascii_table_excerpt] by simp
  moreover have "normalize_text unidecode_excerpt (Str (cps ''caf'' @ [233])) = Str (cps ''CAFE'')"
    using clean_data_normalizes_every_field [OF wf_sample_frame ascii_table_excerpt] e by simp
  moreover have "normalize_text unidecode_excerpt (Str (cps '' - '')) = Str (cps ''0'')"
    by (simp add: cps_def py_strip_def py_isspace_def)
  ultimately show ?thesis
    using wf_sample_frame ascii_table_excerpt e by (simp add: sample_frame_def)
qed

text \<open>
  C10, as stated, fails: the en dash does not trim to \<open>"-"\<close>, so it is
  transliterated to \<open>"-"\<close>, and a second pass rewrites that to \<open>"0"\<close>.
\<close>

theorem normalize_text_not_idempotent:
  "normalize_text unidecode_excerpt (normalize_text unidecode_excerpt (Str [8211]))
     \<noteq> normalize_text unidecode_excerpt (Str [8211])"
  by (simp add: unidecode_excerpt_def cps_def py_strip_def py_isspace_def unidecode_def
      py_upper_def upper_cp_def)

text \<open>
  C10, amended. For a transliteration table with ASCII entries, a second pass changes
  nothing exactly when the text trims to \<open>"-"\<close> or \<open>"*"\<close> itself or its
  transliteration does not; so normalisation is idempotent on every ASCII text, on
  \<open>"0"\<close>, and on every cell that is not text.
\<close>

theorem normalize_text_idempotent_amended:
  assumes "ascii_table tbl"
  shows "(normalize_text tbl (normalize_text tbl (Str s)) = normalize_text tbl (Str s) \<longleftrightarrow>
            py_strip s = cps ''-'' \<or> py_strip s = cps ''*'' \<or>
            (py_strip (unidecode tbl s) \<noteq> cps ''-'' \<and> py_strip (unidecode tbl s) \<noteq> cps ''*'')) \<and>
         (list_all (\<lambda>c. c < 128) s \<longrightarrow>
            normalize_text tbl (normalize_text tbl (Str s)) = normalize_text tbl (Str s)) \<and>
         normalize_text tbl (normalize_text tbl (Str (cps ''0''))) = Str (cps ''0'') \<and>
         normalize_text tbl (normalize_text tbl (Num n)) = normalize_text tbl (Num n) \<and>
         normalize_text tbl (normalize_text tbl NaN) = normalize_text tbl NaN"
proof -
  note iff = normalize_text_idem_iff [OF assms, of s]
  have asc: "list_all (\<lambda>c. c < 128) s \<longrightarrow>
        normalize_text tbl (normalize_text tbl (Str s)) = normalize_text tbl (Str s)"
    unfolding iff by (auto simp: unidecode_ascii_id)
  have zero: "normalize_text tbl (normalize_text tbl (Str (cps ''0''))) = Str (cps ''0'')"
    by (simp only: normalize_zero)
  have rest: "normalize_text tbl (normalize_text tbl (Num n)) = normalize_text tbl (Num n)"
    "normalize_text tbl (normalize_text tbl NaN) = normalize_text tbl NaN"
    by simp_all
  show ?thesis
    using iff asc zero rest by blast
qed

theorem normalize_text_idempotent_amended_witness:
  "ascii_table unidecode_excerpt \<and> list_all (\<lambda>c. c < 128) (cps ''tinto'') \<and>
   normalize_text unidecode_excerpt (normalize_text unidecode_excerpt (Str (cps ''tinto'')))
     = normalize_text unidecode_excerpt (Str (cps ''tinto'')) \<and>
   normalize_text unidecode_excerpt (normalize_text unidecode_excerpt (Str (cps ''caf'' @ [233])))
     = normalize_text unidecode_excerpt (Str (cps ''caf'' @ [233]))"
proof -
  have a: "list_all (\<lambda>c. c < 128) (cps ''tinto'')" by (simp add: cps_def)
  have "py_strip (unidecode unidecode_excerpt (cps ''caf'' @ [233])) \<noteq> cps ''-'' \<and>
        py_strip (unidecode unidecode_excerpt (cps ''caf'' @ [233])) \<noteq> cps ''*''"
    by (simp add: unidecode_excerpt_def cps_def py_strip_def py_isspace_def unidecode_def)
  then show ?thesis
    using a ascii_table_excerpt
      normalize_text_idempotent_amended [OF ascii_table_excerpt, of "cps ''tinto''"]
      normalize_text_idempotent_amended [OF ascii_table_excerpt, of "cps ''caf'' @ [233]"]
    by simp
qed

section \<open>Properties of the extraction loop\<close>

lemma extract_rows_acc:
  "extract_rows f b st acc rs =
     (case extract_rows f b st [] rs of Inl e \<Rightarrow> Inl e | Inr out \<Rightarrow> Inr (acc @ out))"
proof (induction rs arbitrary: st acc)
  case Nil
  show ?case by simp
next
  case (Cons r rs)
  show ?case
  proof (cases "extract_row f b st r")
    case (Inl e)
    then show ?thesis by simp
  next
    case (Inr p)
    obtain st' rd where p: "p = (st', rd)" by (cases p)
    show ?thesis
      using Inr p Cons [of st' "acc @ [rd]"] Cons [of st' "[rd]"]
      by (simp split: sum.splits)
  qed
qed

lemma extract_rows_Cons:
  "extract_rows f b st [] (r # rs) = Inr out \<longleftrightarrow>
     (\<exists>st' rd out'. extract_row f b st r = Inr (st', rd) \<and>
        extract_rows f b st' [] rs = Inr out' \<and> out = rd # out')"
proof (cases "extract_row f b st r")
  case (Inl e)
  then show ?thesis by simp
next
  case (Inr p)
  obtain st' rd where p: "p = (st', rd)" by (cases p)
  show ?thesis
    using Inr p extract_rows_acc [of f b st' "[rd]" rs]
    by (auto split: sum.splits)
qed






lemma classification_of_append [simp]:
  "classification_of r (map g r @ x # ys) = x"
  by (simp add: classification_of_def nth_append)






lemma extract_row_shape:
  "extract_row f b st r = Inr (st', rd) \<Longrightarrow>
   \<exists>x. rd = map (\<lambda>c. py_strip (td_text c)) r @ x # (if b \<noteq> [] then [b] else [])"
  by (cases r) (auto simp: extract_row_def Let_def split: if_splits)

lemma extract_rows_shape:
  "extract_rows f b st [] rs = Inr out \<Longrightarrow>
   length out = length rs \<and>
   (\<forall>j < length rs. \<exists>x. out ! j =
      map (\<lambda>c. py_strip (td_text c)) (rs ! j) @ x # (if b \<noteq> [] then [b] else []))"
proof (induction rs arbitrary: st out)
  case Nil
  then show ?case by simp
next
  case (Cons r rs)
  from Cons.prems(1) obtain st' rd out' where
    row: "extract_row f b st r = Inr (st', rd)" and
    rest: "extract_rows f b st' [] rs = Inr out'" and out: "out = rd # out'"
    unfolding extract_rows_Cons by blast
  from Cons.IH [OF rest] extract_row_shape [OF row] out show ?case
    by (auto simp: nth_Cons split: nat.splits)
qed


lemma cell_at_append:
  assumes "length xs = length ks" "c \<notin> set ks"
  shows "cell_at (ks @ c # ks') (xs @ v # vs) c = v"
proof -
  have n: "map_of (zip ks xs) c = None"
    using assms(2) by (auto simp: map_of_eq_None_iff dest: set_zip_leftD)
  show ?thesis
    using assms(1) by (simp add: cell_at_def zip_append map_add_def n)
qed


lemmas sample_defs =
  sample_table_def orphan_table_def broken_table_def category_row_def subitem_row_def
  footer_row_def tb_item_def tb_subitem_def Total_def col_Classification_def col_Button_def
  cps_def py_strip_def py_isspace_def

lemma table_rows_sample:
  "table_rows sample_table [] =
     Inr [[cps ''VINHO DE MESA'', cps ''10.000'', cps ''VINHO DE MESA''],
          [cps ''tinto'', cps ''4.000'', cps ''VINHO DE MESA''],
          [cps ''Total'', cps ''14.000'', cps ''Total'']]"
  by (simp add: table_rows_def extract_row_def in_footer_def Let_def sample_defs)

lemma extract_sample:
  "extract_table_data sample_table [] =
     Inr \<lparr>columns = [cps ''Produto'', cps ''Quantidade (L.)'', cps ''Classification''],
          rows = [[Str (cps ''VINHO DE MESA''), Str (cps ''10.000''), Str (cps ''VINHO DE MESA'')],
                  [Str (cps ''tinto''), Str (cps ''4.000''), Str (cps ''VINHO DE MESA'')],
                  [Str (cps ''Total''), Str (cps ''14.000''), Str (cps ''Total'')]]\<rparr>"
  unfolding extract_table_data_def table_rows_sample
  by (simp add: bind_err_def DataFrame_def table_headers_def Let_def sample_defs)

lemma table_rows_orphan:
  "table_rows orphan_table [] =
     Inr [[cps ''tinto'', cps ''4.000'', []],
          [cps ''VINHO DE MESA'', cps ''10.000'', cps ''VINHO DE MESA'']]"
  by (simp add: table_rows_def extract_row_def in_footer_def Let_def sample_defs)

lemma extract_orphan:
  "extract_table_data orphan_table [] =
     Inr \<lparr>columns = [cps ''Produto'', cps ''Quantidade (L.)'', cps ''Classification''],
          rows = [[Str (cps ''tinto''), Str (cps ''4.000''), Str []],
                  [Str (cps ''VINHO DE MESA''), Str (cps ''10.000''), Str (cps ''VINHO DE MESA'')]]\<rparr>"
  unfolding extract_table_data_def table_rows_orphan
  by (simp add: bind_err_def DataFrame_def table_headers_def Let_def sample_defs)

lemma table_rows_broken: "table_rows broken_table [] = Inl IndexError"
  by (simp add: table_rows_def extract_row_def in_footer_def Let_def sample_defs)

section \<open>The carried classification\<close>









section \<open>Numeric coercion of a column\<close>

lemma map_of_map_key:
  "map_of (map (\<lambda>(k, v). (k, g k v)) xs) c = map_option (g c) (map_of xs c)"
  by (induction xs) auto

lemma cell_at_map_zip:
  assumes "length r = length cols"
  shows "cell_at cols (map (\<lambda>(k, v). g k v) (zip cols r)) c
         = (case map_of (zip cols r) c of None \<Rightarrow> NaN | Some v \<Rightarrow> g c v)"
  by (simp add: cell_at_def zip_map_zip [OF assms] map_of_map_key split: option.splits)



lemma rows_map_cols [simp]: "length (rows (map_cols P f df)) = length (rows df)"
  by (simp add: map_cols_def)







section \<open>The transformers drop the total rows\<close>



lemma loc_rows_keeps:
  "columns (loc_rows keep d) = columns d \<and> (\<forall>r \<in> set (rows (loc_rows keep d)). keep r) \<and>
   set (rows (loc_rows keep d)) \<subseteq> set (rows d)"
  by (auto simp: loc_rows_def)
























section \<open>The scraping run\<close>


lemma fetch_step_Some:
  "fetch_step page data (y, Some b) =
     (case page y (Some b) of
        Inl e \<Rightarrow> Inl e
      | Inr soup \<Rightarrow>
          (case find_data_table soup of
             Some t \<Rightarrow>
               (case dict_get b key_classification_button of
                  Inl e \<Rightarrow> Inl e
                | Inr label \<Rightarrow> add_table y label t data)
           | None \<Rightarrow> (case dict_get b key_value of Inl e \<Rightarrow> Inl e | Inr v \<Rightarrow> Inr data)))"
  by (simp add: fetch_step_def split: sum.splits option.splits)

lemma fetch_step_None:
  "fetch_step page data (y, None) =
     (case page y None of
        Inl e \<Rightarrow> Inl e
      | Inr soup \<Rightarrow>
          (case find_data_table soup of Some t \<Rightarrow> add_table y [] t data | None \<Rightarrow> Inr data))"
  by (simp add: fetch_step_def split: sum.splits option.splits)

lemma scrape_buttons_fold:
  "scrape_buttons page y bs data = fold_err (fetch_step page) data (map (\<lambda>b. (y, Some b)) bs)"
proof (induction bs arbitrary: data)
  case Nil
  show ?case by simp
next
  case (Cons b bs)
  show ?case
    by (simp add: fetch_step_Some Cons split: sum.splits option.splits)
qed

lemma fold_err_append:
  "fold_err f s (xs @ ys) = (case fold_err f s xs of Inl e \<Rightarrow> Inl e | Inr s' \<Rightarrow> fold_err f s' ys)"
  by (induction xs arbitrary: s) (auto split: sum.splits)

lemma scrape_years_fold:
  "scrape_years page (Inr buttons) ys data = fold_err (fetch_step page) data (fetches ys buttons)"
proof (induction ys arbitrary: data)
  case Nil
  show ?case by (simp add: fetches_def)
next
  case (Cons y ys)
  have f: "fetches (y # ys) buttons
           = (if buttons \<noteq> [] then map (\<lambda>b. (y, Some b)) buttons else [(y, None)]) @ fetches ys buttons"
    by (simp add: fetches_def)
  show ?case
  proof (cases "buttons = []")
    case True
    then show ?thesis
      unfolding f using Cons by (simp add: fetch_step_None split: sum.splits option.splits)
  next
    case False
    then show ?thesis
      unfolding f by (simp add: fold_err_append scrape_buttons_fold Cons split: sum.splits)
  qed
qed

lemma map_of_zip_map_self:
  "map_of (zip xs (map f xs)) c = (if c \<in> set xs then Some (f c) else None)"
  by (induction xs) auto

lemma cell_at_map_self:
  "cell_at cols (map f cols) c = (if c \<in> set cols then f c else NaN)"
  by (simp add: cell_at_def map_of_zip_map_self)

lemma cell_at_absent: "c \<notin> set cols \<Longrightarrow> cell_at cols r c = NaN"
proof -
  assume "c \<notin> set cols"
  then have "map_of (zip cols r) c = None"
    by (auto simp: map_of_eq_None_iff dest: set_zip_leftD)
  then show ?thesis by (simp add: cell_at_def)
qed

lemma column_pd_concat: "column (pd_concat a b) c = column a c @ column b c"
proof -
  define cols where "cols = columns a @ filter (\<lambda>k. k \<notin> set (columns a)) (columns b)"
  have mem: "c \<in> set cols \<longleftrightarrow> c \<in> set (columns a) \<or> c \<in> set (columns b)"
    by (auto simp: cols_def)
  have pd: "pd_concat a b =
     \<lparr>columns = cols,
      rows = map (\<lambda>r. map (cell_at (columns a) r) cols) (rows a) @
             map (\<lambda>r. map (cell_at (columns b) r) cols) (rows b)\<rparr>"
    by (simp add: pd_concat_def cols_def Let_def)
  have 1: "cell_at cols (map (cell_at (columns a) r) cols) c = cell_at (columns a) r c" for r
    using mem by (auto simp: cell_at_map_self cell_at_absent)
  have 2: "cell_at cols (map (cell_at (columns b) r) cols) c = cell_at (columns b) r c" for r
    using mem by (auto simp: cell_at_map_self cell_at_absent)
  show ?thesis
    unfolding pd column_def by (simp add: 1 2)
qed

lemma rectangular_pd_concat: "rectangular (pd_concat a b)"
  by (auto simp: rectangular_def pd_concat_def Let_def list_all_iff)

lemma length_le_foldr_max: "r \<in> set data \<Longrightarrow> length r \<le> foldr max (map length data) 0"
  by (induction data) auto

lemma DataFrame_rectangular:
  assumes "DataFrame data hs = Inr df"
  shows "rectangular df \<and> length (rows df) = length data"
proof (cases "data = []")
  case True
  with assms show ?thesis by (auto simp: DataFrame_def rectangular_def)
next
  case False
  with assms have k: "foldr max (map length data) 0 = length hs"
    and df: "df = \<lparr>columns = hs, rows = map (\<lambda>r. map Str r @ replicate (length hs - length r) NaN) data\<rparr>"
    by (auto simp: DataFrame_def Let_def split: if_splits)
  have "length r \<le> length hs" if "r \<in> set data" for r
    using length_le_foldr_max [OF that] k by simp
  then show ?thesis
    unfolding df by (simp add: rectangular_def list_all_iff)
qed

lemma extract_table_data_rows:
  assumes "extract_table_data t b = Inr df"
  shows "rectangular df \<and> length (rows df) = length (tl (trs t))"
proof -
  from assms obtain out where
    out: "table_rows t b = Inr out" and df: "DataFrame out (table_headers t b) = Inr df"
    by (auto simp: extract_table_data_def bind_err_def split: sum.splits)
  from out have "length out = length (tl (trs t))"
    using extract_rows_shape [of "tfoot t" b "([], [])" "tl (trs t)" out]
    by (simp add: table_rows_def)
  with DataFrame_rectangular [OF df] show ?thesis by simp
qed

lemma cell_at_set_all:
  assumes "length r = length cols" "c \<in> set cols"
  shows "cell_at cols (map (\<lambda>(k, x). if k = c then v else x) (zip cols r)) c = v"
proof -
  have "map_of (zip cols r) c \<noteq> None"
    using assms by (metis map_fst_zip map_of_eq_None_iff set_map)
  then show ?thesis
    using cell_at_map_zip [OF assms(1), of "\<lambda>k x. if k = c then v else x" c] by auto
qed

lemma map2_replicate: "map2 F rs (replicate (length rs) v) = map (\<lambda>r. F r v) rs"
  by (induction rs) auto

lemma column_stamp_year:
  assumes "rectangular df"
  shows "column (stamp_year y df) col_Year = replicate (length (rows df)) (Num y)"
proof -
  have len: "length r = length (columns df)" if "r \<in> set (rows df)" for r
    using assms that by (simp add: rectangular_def list_all_iff)
  show ?thesis
  proof (cases "col_Year \<in> set (columns df)")
    case True
    have "column (stamp_year y df) col_Year
          = map (\<lambda>r. cell_at (columns df)
                       (map (\<lambda>(k, x). if k = col_Year then Num y else x) (zip (columns df) r)) col_Year)
              (rows df)"
      using True by (simp add: stamp_year_def set_column_def column_def map2_replicate)
    also have "\<dots> = map (\<lambda>r. Num y) (rows df)"
      by (intro map_cong refl cell_at_set_all len True)
    finally show ?thesis by (simp add: map_replicate_const)
  next
    case False
    have "column (stamp_year y df) col_Year
          = map (\<lambda>r. cell_at (columns df @ [col_Year]) (r @ [Num y]) col_Year) (rows df)"
      using False by (simp add: stamp_year_def set_column_def column_def map2_replicate)
    also have "\<dots> = map (\<lambda>r. Num y) (rows df)"
      using False by (intro map_cong refl cell_at_append len)
    finally show ?thesis by (simp add: map_replicate_const)
  qed
qed

lemma set_column_other:
  assumes "rectangular d" "c \<in> set (columns d)" "c \<noteq> k" "length vals = length (rows d)"
  shows "column (set_column c vals d) k = column d k \<and> rectangular (set_column c vals d) \<and>
         columns (set_column c vals d) = columns d"
proof -
  let ?F = "\<lambda>r v. map (\<lambda>(k, x). if k = c then v else x) (zip (columns d) r)"
  have len: "length r = length (columns d)" if "r \<in> set (rows d)" for r
    using assms(1) that by (simp add: rectangular_def list_all_iff)
  have cell: "cell_at (columns d) (?F r v) k = cell_at (columns d) r k" if "r \<in> set (rows d)" for r v
    using cell_at_map_zip [OF len [OF that], of "\<lambda>k x. if k = c then v else x" k] assms(3)
    by (auto simp: cell_at_def split: option.splits)
  have "map (\<lambda>r. cell_at (columns d) r k) (map2 ?F rs vs) = map (\<lambda>r. cell_at (columns d) r k) rs \<and>
        list_all (\<lambda>r. length r = length (columns d)) (map2 ?F rs vs)"
    if "length vs = length rs" "set rs \<subseteq> set (rows d)" for rs vs
    using that by (induction vs rs rule: list_induct2) (auto simp: cell len)
  from this [of vals "rows d"] assms(2,4) show ?thesis
    by (simp add: set_column_def column_def rectangular_def)
qed

lemma fold_set_column_other:
  assumes "rectangular d" "set cs \<subseteq> set (columns d)" "k \<notin> set cs"
  shows "column (foldl (\<lambda>d c. set_column c (map f (column d c)) d) d cs) k = column d k"
  using assms
proof (induction cs arbitrary: d)
  case Nil
  show ?case by simp
next
  case (Cons c cs)
  let ?d = "set_column c (map f (column d c)) d"
  have s: "column ?d k = column d k \<and> rectangular ?d \<and> columns ?d = columns d"
    using Cons.prems by (intro set_column_other) (auto simp: column_def)
  then have "column (foldl (\<lambda>d c. set_column c (map f (column d c)) d) ?d cs) k = column ?d k"
    using Cons.prems by (intro Cons.IH) auto
  with s show ?case by simp
qed

lemma clean_data_keeps_non_text_column:
  assumes "rectangular d" "\<not> list_ex is_Str (column d k)"
  shows "column (clean_data tbl d) k = column d k"
  unfolding clean_data_def using assms
  by (intro fold_set_column_other) (auto simp: select_dtypes_object_def)

lemma add_table_Inr:
  assumes "add_table y l t data = Inr data'"
  shows "\<exists>df. extract_table_data t l = Inr df \<and> data' = pd_concat data (stamp_year y df)"
  using assms by (auto simp: add_table_def bind_err_def split: sum.splits)

lemma add_table_year_column:
  assumes "add_table y l t data = Inr data'"
  shows "rectangular data' \<and>
         column data' col_Year = column data col_Year @ replicate (length (tl (trs t))) (Num y)"
proof -
  from add_table_Inr [OF assms] obtain df where
    df: "extract_table_data t l = Inr df" and d: "data' = pd_concat data (stamp_year y df)"
    by blast
  from extract_table_data_rows [OF df] column_stamp_year [of df y] show ?thesis
    unfolding d by (simp add: column_pd_concat rectangular_pd_concat)
qed

lemma fetch_step_year_column:
  assumes "fetch_step page data yb = Inr data'" "rectangular data"
  shows "rectangular data' \<and>
         column data' col_Year
           = column data col_Year @ replicate (records_found page yb) (Num (fst yb))"
proof (cases "page (fst yb) (snd yb)")
  case (Inl e)
  with assms(1) show ?thesis by (simp add: fetch_step_def)
next
  case (Inr soup)
  show ?thesis
  proof (cases "find_data_table soup")
    case None
    with Inr assms show ?thesis
      by (auto simp: fetch_step_def records_found_def split: option.splits sum.splits)
  next
    case (Some t)
    from assms(1) Inr Some obtain l where "add_table (fst yb) l t data = Inr data'"
      by (auto simp: fetch_step_def split: option.splits sum.splits)
    from add_table_year_column [OF this] Inr Some show ?thesis
      by (simp add: records_found_def)
  qed
qed

lemma fold_fetch_year_column:
  assumes "fold_err (fetch_step page) data fs = Inr out" "rectangular data"
  shows "rectangular out \<and>
         column out col_Year
           = column data col_Year @
             concat (map (\<lambda>yb. replicate (records_found page yb) (Num (fst yb))) fs)"
  using assms
proof (induction fs arbitrary: data)
  case Nil
  then show ?case by simp
next
  case (Cons yb fs)
  from Cons.prems(1) obtain data' where
    step: "fetch_step page data yb = Inr data'" and rest: "fold_err (fetch_step page) data' fs = Inr out"
    by (auto split: sum.splits)
  from fetch_step_year_column [OF step Cons.prems(2)] Cons.IH [OF rest] show ?case
    by simp
qed

lemma column_empty_frame: "column empty_frame c = []" "rectangular empty_frame"
  by (simp_all add: column_def empty_frame_def rectangular_def)

lemma no_Str_in_year_stamps:
  "\<not> list_ex is_Str (concat (map (\<lambda>yb. replicate (n yb) (Num (fst yb))) fs))"
  by (induction fs) (auto simp: list_ex_iff)

lemma run_scraping_Inr:
  "run_scraping tbl page gb years = Inr out \<longleftrightarrow>
     (\<exists>data. scrape_years page gb years empty_frame = Inr data \<and> out = clean_data tbl data)"
  by (auto simp: run_scraping_def bind_err_def split: sum.splits)

text \<open>
  C6. When \<open>get_buttons\<close> returns a list and the run returns a frame, the two loops
  have processed the combinations of \<open>fetches\<close> one after the other (years outside,
  buttons inside, one combination per year when the list is empty), each appending
  its stamped records to the frame accumulated so far, and \<open>clean_data\<close> was applied
  to the result. The \<open>Year\<close> column of the final frame is, combination after
  combination in that order, the year of the combination repeated once per record of
  its table. Appending keeps what was accumulated in front, column by column.
\<close>

theorem scraping_accumulates_in_order:
  assumes "get_buttons = Inr buttons" "run_scraping tbl page get_buttons years = Inr out"
  shows "(\<exists>data. fold_err (fetch_step page) empty_frame (fetches years buttons) = Inr data \<and>
            out = clean_data tbl data) \<and>
         column out col_Year
           = concat (map (\<lambda>yb. replicate (records_found page yb) (Num (fst yb)))
                       (fetches years buttons)) \<and>
         (\<forall>a b c. column (pd_concat a b) c = column a c @ column b c)"
proof -
  from assms obtain data where
    data: "fold_err (fetch_step page) empty_frame (fetches years buttons) = Inr data" and
    out: "out = clean_data tbl data"
    by (auto simp: run_scraping_Inr scrape_years_fold)
  from fold_fetch_year_column [OF data column_empty_frame(2)] have
    r: "rectangular data" and
    y: "column data col_Year
          = concat (map (\<lambda>yb. replicate (records_found page yb) (Num (fst yb)))
                      (fetches years buttons))"
    by (simp_all add: column_empty_frame)
  have "\<not> list_ex is_Str (column data col_Year)"
    unfolding y by (rule no_Str_in_year_stamps)
  then have "column out col_Year = column data col_Year"
    unfolding out using r by (intro clean_data_keeps_non_text_column)
  with y data out show ?thesis
    by (auto simp: column_pd_concat)
qed

lemma scrape_sample_years:
  "scrape_years sample_page (Inr []) [2020, 2021] empty_frame =
     Inr (pd_concat
            (pd_concat empty_frame
               (stamp_year 2020
                  \<lparr>columns = [cps ''Produto'', cps ''Quantidade (L.)'', cps ''Classification''],
                   rows = [[Str (cps ''VINHO DE MESA''), Str (cps ''10.000''), Str (cps ''VINHO DE MESA'')],
                           [Str (cps ''tinto''), Str (cps ''4.000''), Str (cps ''VINHO DE MESA'')],
                           [Str (cps ''Total''), Str (cps ''14.000''), Str (cps ''Total'')]]\<rparr>))
            (stamp_year 2021
               \<lparr>columns = [cps ''Produto'', cps ''Quantidade (L.)'', cps ''Classification''],
                rows = [[Str (cps ''tinto''), Str (cps ''4.000''), Str []],
                        [Str (cps ''VINHO DE MESA''), Str (cps ''10.000''), Str (cps ''VINHO DE MESA'')]]\<rparr>))"
proof -
  have f0: "find_data_table [([cps ''menu''], broken_table), (data_class, sample_table)] = Some sample_table"
    by (simp add: find_data_table_def data_class_def cps_def)
  have f1: "find_data_table [(data_class, orphan_table)] = Some orphan_table"
    by (simp add: find_data_table_def data_class_def)
  show ?thesis
    by (simp add: sample_page_def f0 f1 add_table_def bind_err_def extract_sample extract_orphan)
qed

theorem scraping_accumulates_in_order_witness:
  "\<exists>out. run_scraping unidecode_excerpt sample_page (Inr []) [2020, 2021] = Inr out \<and>
      column out col_Year = [Num 2020, Num 2020, Num 2020, Num 2021, Num 2021]"
proof -
  obtain out where out: "run_scraping unidecode_excerpt sample_page (Inr []) [2020, 2021] = Inr out"
    unfolding run_scraping_def scrape_sample_years bind_err_def by simp
  have f: "fetches [2020, 2021] [] = [(2020, None), (2021, None)]"
    by (simp add: fetches_def)
  have n: "records_found sample_page (2020, None) = 3" "records_found sample_page (2021, None) = 2"
    by (simp_all add: records_found_def sample_page_def find_data_table_def data_class_def
        sample_table_def orphan_table_def cps_def)
  from scraping_accumulates_in_order [OF refl out]
  have "column out col_Year = [Num 2020, Num 2020, Num 2020, Num 2021, Num 2021]"
    unfolding f by (simp add: n numeral_3_eq_3 numeral_2_eq_2)
  with out show ?thesis by blast
qed

lemma find_data_table_None:
  "find_data_table soup = None \<longleftrightarrow> \<not> list_ex (\<lambda>(cl, t). cl = data_class) soup"
proof -
  have "filter (\<lambda>(cl, t). cl = data_class) soup = [] \<longleftrightarrow> \<not> list_ex (\<lambda>(cl, t). cl = data_class) soup"
    by (auto simp: filter_empty_conv list_ex_iff)
  then show ?thesis
    by (auto simp: find_data_table_def data_class_def split: list.splits)
qed

lemma fetch_step_skip:
  assumes "page (fst yb) (snd yb) = Inr soup" "find_data_table soup = None"
    "case snd yb of None \<Rightarrow> True | Some b \<Rightarrow> b key_value \<noteq> None"
  shows "fetch_step page data yb = Inr data"
  using assms by (auto simp: fetch_step_def dict_get_def split: option.splits)

text \<open>
  C7. \<open>find_data_table\<close> returns \<open>None\<close>, and raises nothing, exactly when no
  table of the page carries the marker classes. For a combination whose page has no
  data table the inner loop goes on with the remaining buttons and the frame
  unchanged (the button holding the key \<open>value\<close> that the message reads), and so
  does the pass without buttons with the remaining years; the run as a whole is the
  run over the other combinations.
\<close>

theorem missing_table_is_skipped:
  "(find_data_table soup = None \<longleftrightarrow> \<not> list_ex (\<lambda>(cl, t). cl = data_class) soup) \<and>
   (page year (Some button) = Inr soup \<and> find_data_table soup = None \<and> button key_value \<noteq> None \<longrightarrow>
      scrape_buttons page year (button # rest) data = scrape_buttons page year rest data) \<and>
   (page year None = Inr soup \<and> find_data_table soup = None \<longrightarrow>
      scrape_years page (Inr []) (year # years) data = scrape_years page (Inr []) years data) \<and>
   scrape_years page (Inr buttons) years data
     = fold_err (fetch_step page) data (fetches years buttons) \<and>
   (page (fst yb) (snd yb) = Inr soup \<and> find_data_table soup = None \<and>
    (case snd yb of None \<Rightarrow> True | Some b \<Rightarrow> b key_value \<noteq> None) \<longrightarrow>
      fold_err (fetch_step page) data (xs @ yb # ys) = fold_err (fetch_step page) data (xs @ ys))"
proof -
  have 2: "scrape_buttons page year (button # rest) data = scrape_buttons page year rest data"
    if "page year (Some button) = Inr soup" "find_data_table soup = None" "button key_value \<noteq> None"
    using that by (auto simp: dict_get_def)
  have 3: "scrape_years page (Inr []) (year # years) data = scrape_years page (Inr []) years data"
    if "page year None = Inr soup" "find_data_table soup = None"
    using that by simp
  have 5: "fold_err (fetch_step page) data (xs @ yb # ys) = fold_err (fetch_step page) data (xs @ ys)"
    if "page (fst yb) (snd yb) = Inr soup" "find_data_table soup = None"
       "case snd yb of None \<Rightarrow> True | Some b \<Rightarrow> b key_value \<noteq> None"
    using fetch_step_skip [where page = page and yb = yb and soup = soup, OF that]
    by (simp add: fold_err_append split: sum.splits)
  show ?thesis
    using find_data_table_None [of soup] 2 3 5 scrape_years_fold [of page buttons years data]
    by blast
qed

theorem missing_table_is_skipped_witness:
  "sample_page 2019 (Some sample_button) = Inr [([cps ''tb_base''], sample_table)] \<and>
   find_data_table [([cps ''tb_base''], sample_table)] = None \<and>
   sample_button key_value \<noteq> None \<and>
   scrape_buttons sample_page 2019 [sample_button] empty_frame = Inr empty_frame \<and>
   scrape_years sample_page (Inr []) [2019] empty_frame = Inr empty_frame \<and>
   (\<exists>out. run_scraping unidecode_excerpt sample_page (Inr []) [2020, 2019, 2021] = Inr out \<and>
      run_scraping unidecode_excerpt sample_page (Inr []) [2020, 2021] = Inr out)"
proof -
  let ?soup = "[([cps ''tb_base''], sample_table)]"
  have p: "sample_page 2019 b = Inr ?soup" for b
    by (simp add: sample_page_def)
  have f: "find_data_table ?soup = None"
    by (simp add: find_data_table_def cps_def)
  have k: "sample_button key_value \<noteq> None"
    by (simp add: sample_button_def key_value_def cps_def)
  note inst = missing_table_is_skipped [where soup = ?soup and page = sample_page and year = 2019
      and button = sample_button and data = empty_frame]
  have a: "scrape_buttons sample_page 2019 [sample_button] empty_frame = Inr empty_frame"
    using inst [where rest = "[]"] p f k by simp
  have b: "scrape_years sample_page (Inr []) [2019] empty_frame = Inr empty_frame"
    using inst [where years = "[]"] p f by simp
  have fs: "fetches [2020, 2019, 2021] [] = [(2020, None)] @ (2019, None) # [(2021, None)]"
    "fetches [2020, 2021] [] = [(2020, None)] @ [(2021, None)]"
    by (simp_all add: fetches_def)
  have "scrape_years sample_page (Inr []) [2020, 2019, 2021] empty_frame
        = scrape_years sample_page (Inr []) [2020, 2021] empty_frame"
    using inst [where yb = "(2019, None)" and xs = "[(2020, None)]" and ys = "[(2021, None)]"] p f
    unfolding scrape_years_fold fs by simp
  then have "run_scraping unidecode_excerpt sample_page (Inr []) [2020, 2019, 2021]
             = run_scraping unidecode_excerpt sample_page (Inr []) [2020, 2021]"
    by (simp add: run_scraping_def)
  moreover obtain out where "run_scraping unidecode_excerpt sample_page (Inr []) [2020, 2021] = Inr out"
    unfolding run_scraping_def scrape_sample_years bind_err_def by simp
  ultimately show ?thesis
    using p f k a b by auto
qed

end
